theory Spec2Isabelle
  imports
    Main
    "HOL-Library.Char_ord"
    "HOL-Library.List_Lexorder"
    "HOL-Library.Sublist"
    "HOL-Library.AList"
    "HOL-Library.Multiset"
begin

section \<open>Strings and records\<close>

text \<open>
  Python strings are modelled as \<^typ>\<open>string\<close>; their comparison is the lexicographic
  order on character codes, which is the order of \<open>List_Lexorder\<close> over \<open>Char_ord\<close>.
  A character beyond ASCII stands as its UTF-8 bytes: none of them is an ASCII
  character, so the character classes of the pattern read them as Python reads the
  character, and the order of the byte strings is the order of the code points.
  A version record is the tuple \<open>(version, commit_hash, github_user, github_repo)\<close> of
  \<open>update_pip_index.py\<close>. What the scripts print is not modelled.
\<close>

type_synonym version_record = "string \<times> string \<times> string \<times> string"

datatype error =
    IndexError
  | FileExistsError
  | FileNotFoundError
  | NotADirectoryError
  | IsADirectoryError
  | UnmodelledPath

definition bind_result :: "error + 'a \<Rightarrow> ('a \<Rightarrow> error + 'b) \<Rightarrow> error + 'b" where
  "bind_result r f = (case r of Inl e \<Rightarrow> Inl e | Inr x \<Rightarrow> f x)"

definition LF :: char where
  "LF = CHR 0x0A"

definition CR :: char where
  "CR = CHR 0x0D"

definition DQ :: char where
  "DQ = CHR 0x22"

text \<open>\<open>str.endswith\<close>.\<close>

definition endswith :: "string \<Rightarrow> string \<Rightarrow> bool" where
  "endswith s suf = (length suf \<le> length s \<and> drop (length s - length suf) s = suf)"

text \<open>
  \<open>str.replace(old, new)\<close> for a non-empty \<open>old\<close>: every non-overlapping occurrence,
  found from the left, is replaced. The counter says how many characters of the
  occurrence found last are still to be skipped.
\<close>

fun replace_from :: "nat \<Rightarrow> string \<Rightarrow> string \<Rightarrow> string \<Rightarrow> string" where
  "replace_from n old new [] = []"
| "replace_from (Suc n) old new (c # cs) = replace_from n old new cs"
| "replace_from 0 old new (c # cs) =
     (if old \<noteq> [] \<and> prefix old (c # cs)
      then new @ replace_from (length old - 1) old new cs
      else c # replace_from 0 old new cs)"

definition str_replace :: "string \<Rightarrow> string \<Rightarrow> string \<Rightarrow> string" where
  "str_replace s old new = replace_from 0 old new s"

text \<open>
  \<open>s.split(sep, 1)\<close> for a one-character separator: two parts around the first
  separator, or the string alone.
\<close>

definition split_once :: "string \<Rightarrow> char \<Rightarrow> string list" where
  "split_once s sep =
     (if sep \<in> set s
      then [takeWhile (\<lambda>c. c \<noteq> sep) s, tl (dropWhile (\<lambda>c. c \<noteq> sep) s)]
      else [s])"

text \<open>List indexing \<open>xs[i]\<close> for a natural index: out of range raises \<open>IndexError\<close>.\<close>

definition index :: "'a list \<Rightarrow> nat \<Rightarrow> error + 'a" where
  "index xs i = (if i < length xs then Inr (xs ! i) else Inl IndexError)"

section \<open>Rendering\<close>

definition package_header :: "string \<Rightarrow> string" where
  "package_header package =
     ''<!DOCTYPE html>'' @ [LF] @
     ''<html>'' @ [LF] @
     ''<head>'' @ [LF] @
     ''    <title>Links for '' @ package @ ''</title>'' @ [LF] @
     ''</head>'' @ [LF] @
     ''<body>'' @ [LF] @
     ''    <h1>Links for '' @ package @ ''</h1>'' @ [LF]"

definition html_footer :: string where
  "html_footer = ''</body>'' @ [LF] @ ''</html>'' @ [LF]"

definition tarball_url :: "string \<Rightarrow> string \<Rightarrow> string \<Rightarrow> string" where
  "tarball_url github_user github_repo commit_hash =
     ''https://github.com/'' @ github_user @ ''/'' @ github_repo @
     ''/archive/'' @ commit_hash @ ''.tar.gz''"

definition package_link :: "string \<Rightarrow> version_record \<Rightarrow> string" where
  "package_link package_name rec =
     (case rec of (version, commit_hash, github_user, github_repo) \<Rightarrow>
        let link_url = tarball_url github_user github_repo commit_hash @
                         ''#egg='' @ package_name @ ''-'' @ version;
            link_text = package_name @ ''-'' @ version
        in ''    <a href='' @ [DQ] @ link_url @ [DQ] @ ''>'' @ link_text @ ''</a><br>'' @ [LF])"

definition create_package_index_html :: "string \<Rightarrow> version_record list \<Rightarrow> string" where
  "create_package_index_html package_name versions_data =
     package_header package_name @
     concat (map (package_link package_name) versions_data) @
     html_footer"

definition root_header :: string where
  "root_header =
     ''<!DOCTYPE html>'' @ [LF] @
     ''<html>'' @ [LF] @
     ''<head>'' @ [LF] @
     ''    <title>Simple Index</title>'' @ [LF] @
     ''</head>'' @ [LF] @
     ''<body>'' @ [LF] @
     ''    <h1>Simple Index</h1>'' @ [LF]"

definition root_link :: "string \<Rightarrow> string" where
  "root_link package =
     ''    <a href='' @ [DQ] @ package @ ''/'' @ [DQ] @ ''>'' @ package @ ''</a><br>'' @ [LF]"

definition create_root_index_html :: "string list \<Rightarrow> string" where
  "create_root_index_html packages =
     root_header @ concat (map root_link (sort packages)) @ html_footer"

section \<open>The anchor pattern\<close>

text \<open>
  The pattern of \<open>load_existing_versions\<close> is a sequence of literals, four greedy
  character-class repetitions (the groups) and one optional group. Python's matcher
  backtracks: a greedy repetition takes as many characters as it can and gives them
  back one at a time while the rest of the pattern fails. The combinators below take
  the rest of the pattern as a continuation, so the first success they return is the
  match Python reports.
\<close>

fun lit :: "string \<Rightarrow> string \<Rightarrow> string option" where
  "lit [] s = Some s"
| "lit (p # ps) [] = None"
| "lit (p # ps) (c # cs) = (if p = c then lit ps cs else None)"

fun star_greedy ::
  "(char \<Rightarrow> bool) \<Rightarrow> (string \<Rightarrow> string \<Rightarrow> 'a option) \<Rightarrow> string \<Rightarrow> string \<Rightarrow> 'a option" where
  "star_greedy cls k acc [] = k acc []"
| "star_greedy cls k acc (c # cs) =
     (if cls c
      then (case star_greedy cls k (acc @ [c]) cs of
              Some r \<Rightarrow> Some r
            | None \<Rightarrow> k acc (c # cs))
      else k acc (c # cs))"

definition plus_greedy ::
  "(char \<Rightarrow> bool) \<Rightarrow> (string \<Rightarrow> string \<Rightarrow> 'a option) \<Rightarrow> string \<Rightarrow> 'a option" where
  "plus_greedy cls k s =
     (case s of
        [] \<Rightarrow> None
      | c # cs \<Rightarrow> if cls c then star_greedy cls k [c] cs else None)"

definition opt_greedy ::
  "((string \<Rightarrow> 'a option) \<Rightarrow> string \<Rightarrow> 'a option) \<Rightarrow> (string \<Rightarrow> 'a option) \<Rightarrow> string \<Rightarrow> 'a option" where
  "opt_greedy m k s = (case m k s of Some r \<Rightarrow> Some r | None \<Rightarrow> k s)"

definition then_lit :: "string \<Rightarrow> (string \<Rightarrow> 'a option) \<Rightarrow> string \<Rightarrow> 'a option" where
  "then_lit p k s = (case lit p s of None \<Rightarrow> None | Some s' \<Rightarrow> k s')"

text \<open>The optional group \<open>(?:#egg=[^"]+)?\<close>.\<close>

definition egg_fragment :: "(string \<Rightarrow> 'a option) \<Rightarrow> string \<Rightarrow> 'a option" where
  "egg_fragment k = then_lit ''#egg='' (plus_greedy (\<lambda>c. c \<noteq> DQ) (\<lambda>_. k))"

text \<open>
  One attempt to match the pattern at the start of the string: the four groups and
  the text after the match.
\<close>

definition after_prefix :: "string \<Rightarrow> ((string \<times> string \<times> string \<times> string) \<times> string) option" where
  "after_prefix =
     plus_greedy (\<lambda>c. c \<noteq> CHR ''/'') (\<lambda>g1.
       then_lit ''/''
        (plus_greedy (\<lambda>c. c \<noteq> CHR ''/'') (\<lambda>g2.
          then_lit ''/archive/''
           (plus_greedy (\<lambda>c. c \<noteq> DQ \<and> c \<noteq> CHR ''#'') (\<lambda>g3.
             then_lit ''.tar.gz''
              (opt_greedy egg_fragment
                (then_lit ([DQ] @ ''>'')
                  (plus_greedy (\<lambda>c. c \<noteq> CHR ''<'') (\<lambda>g4.
                    then_lit ''</a>'' (\<lambda>rest. Some ((g1, g2, g3, g4), rest)))))))))))"

definition anchor_match :: "string \<Rightarrow> ((string \<times> string \<times> string \<times> string) \<times> string) option" where
  "anchor_match = then_lit (''href='' @ [DQ] @ ''https://github.com/'') after_prefix"

text \<open>A match that is found leaves less text than it was given.\<close>

definition shrinks :: "(string \<Rightarrow> ('a \<times> string) option) \<Rightarrow> bool" where
  "shrinks k = (\<forall>s g rest. k s = Some (g, rest) \<longrightarrow> length rest \<le> length s)"

lemma lit_Some: "lit p s = Some r \<longleftrightarrow> s = p @ r"
  by (induction p s rule: lit.induct) auto

lemma shrinks_final: "shrinks (\<lambda>rest. Some (x, rest))"
  by (simp add: shrinks_def)

lemma shrinks_then_lit: "shrinks k \<Longrightarrow> shrinks (then_lit p k)"
  unfolding shrinks_def then_lit_def
  by (fastforce simp: lit_Some split: option.splits)

lemma star_greedy_shrinks:
  assumes "\<And>a. shrinks (k a)"
  shows "star_greedy cls k acc s = Some (g, rest) \<Longrightarrow> length rest \<le> length s"
proof (induction s arbitrary: acc)
  case Nil
  then have "k acc [] = Some (g, rest)" by simp
  with assms [of acc] have "length rest \<le> length ([] :: string)"
    unfolding shrinks_def by blast
  then show ?case by simp
next
  case (Cons c cs)
  show ?case
  proof (cases "cls c \<and> star_greedy cls k (acc @ [c]) cs \<noteq> None")
    case True
    with Cons.prems have "star_greedy cls k (acc @ [c]) cs = Some (g, rest)"
      by (auto split: option.splits)
    from Cons.IH [OF this] show ?thesis by simp
  next
    case False
    with Cons.prems have "k acc (c # cs) = Some (g, rest)"
      by (auto split: if_splits option.splits)
    with assms [of acc] show ?thesis unfolding shrinks_def by blast
  qed
qed

lemma shrinks_plus_greedy:
  assumes "\<And>a. shrinks (k a)"
  shows "shrinks (plus_greedy cls k)"
  unfolding shrinks_def plus_greedy_def
  by (auto split: list.splits if_splits dest!: star_greedy_shrinks [OF assms])

lemma shrinks_egg_fragment: "shrinks k \<Longrightarrow> shrinks (egg_fragment k)"
  unfolding egg_fragment_def
  by (intro shrinks_then_lit shrinks_plus_greedy)

lemma shrinks_opt_egg: "shrinks k \<Longrightarrow> shrinks (opt_greedy egg_fragment k)"
  using shrinks_egg_fragment [of k] unfolding shrinks_def opt_greedy_def
  by (auto split: option.splits)

lemma shrinks_after_prefix: "shrinks after_prefix"
  unfolding after_prefix_def
  by (intro shrinks_plus_greedy shrinks_then_lit shrinks_opt_egg shrinks_final)

lemma anchor_match_shorter:
  assumes "anchor_match s = Some (g, rest)"
  shows "length rest < length s"
proof -
  from assms obtain s1 where "s = (''href='' @ [DQ] @ ''https://github.com/'') @ s1"
      and "after_prefix s1 = Some (g, rest)"
    by (auto simp: anchor_match_def then_lit_def lit_Some split: option.splits)
  with shrinks_after_prefix show ?thesis unfolding shrinks_def by fastforce
qed

text \<open>
  \<open>re.finditer\<close>: the matches from the left, not overlapping. Where the pattern
  matches, the scan goes on after the match; where it does not, at the next character.
\<close>

function finditer :: "string \<Rightarrow> (string \<times> string \<times> string \<times> string) list" where
  "finditer [] = []"
| "finditer (c # cs) =
     (case anchor_match (c # cs) of
        Some (groups, rest) \<Rightarrow> groups # finditer rest
      | None \<Rightarrow> finditer cs)"
  by pat_completeness auto
termination
  by (relation "measure length") (auto dest: anchor_match_shorter)

section \<open>Parsing a package page\<close>

text \<open>The version of one link text (the two branches of the loop body).\<close>

definition link_text_version :: "string \<Rightarrow> error + string" where
  "link_text_version link_text =
     (if endswith link_text ''.tar.gz''
      then index (split_once (str_replace link_text ''.tar.gz'' []) (CHR ''-'')) 1
      else if CHR ''-'' \<in> set link_text
           then index (split_once link_text (CHR ''-'')) 1
           else Inr link_text)"

text \<open>The loop over the matches; the first exception ends it.\<close>

fun collect_versions :: "(string \<times> string \<times> string \<times> string) list \<Rightarrow> error + version_record list" where
  "collect_versions [] = Inr []"
| "collect_versions ((github_user, github_repo, commit_hash, link_text) # matches) =
     bind_result (link_text_version link_text) (\<lambda>version.
       bind_result (collect_versions matches) (\<lambda>versions.
         Inr ((version, commit_hash, github_user, github_repo) # versions)))"

definition parse_versions :: "string \<Rightarrow> error + version_record list" where
  "parse_versions content = collect_versions (finditer content)"

section \<open>The file tree\<close>

text \<open>
  A path is the list of its components from the root; the tree is an association list
  from paths to nodes, in the order the entries were made, which stands for the
  arbitrary order of a directory listing. The root is a directory. Permissions, links
  and the limits of the medium are not modelled: an operation fails only where the
  kind of a node forbids it.
\<close>

datatype node = File string | Dir

type_synonym path = "string list"

type_synonym filesystem = "(path \<times> node) list"

definition lookup :: "filesystem \<Rightarrow> path \<Rightarrow> node option" where
  "lookup fs p = (if p = [] then Some Dir else map_of fs p)"

definition is_dir :: "filesystem \<Rightarrow> path \<Rightarrow> bool" where
  "is_dir fs p = (lookup fs p = Some Dir)"

text \<open>
  \<open>simple_dir / package_name\<close> for a name that is one component of a path. A name
  that is empty, has a separator or is a dot name would be resolved by the path library
  and the operating system to some other place: the model stops there.
\<close>

definition plain_name :: "string \<Rightarrow> bool" where
  "plain_name name =
     (name \<noteq> [] \<and> name \<noteq> ''.'' \<and> name \<noteq> ''..'' \<and>
      CHR ''/'' \<notin> set name \<and> CHR 0x00 \<notin> set name)"

definition join :: "path \<Rightarrow> string \<Rightarrow> error + path" where
  "join d name = (if plain_name name then Inr (d @ [name]) else Inl UnmodelledPath)"

text \<open>
  \<open>Path.mkdir(parents=True, exist_ok=True)\<close>: every missing directory on the way is
  made; a file on the way, or at the end, is an error.
\<close>

fun mkdir_from :: "filesystem \<Rightarrow> path \<Rightarrow> path \<Rightarrow> error + filesystem" where
  "mkdir_from fs parent [] = Inr fs"
| "mkdir_from fs parent (name # names) =
     (case lookup fs (parent @ [name]) of
        None \<Rightarrow> mkdir_from (fs @ [(parent @ [name], Dir)]) (parent @ [name]) names
      | Some Dir \<Rightarrow> mkdir_from fs (parent @ [name]) names
      | Some (File _) \<Rightarrow> Inl (if names = [] then FileExistsError else NotADirectoryError))"

definition mkdir_parents :: "filesystem \<Rightarrow> path \<Rightarrow> error + filesystem" where
  "mkdir_parents fs p = mkdir_from fs [] p"

text \<open>
  \<open>Path.read_text()\<close> opens the file in text mode, where every \<open>\r\n\<close> and every
  single \<open>\r\<close> is read as \<open>\n\<close>; \<open>Path.write_text()\<close> writes \<open>\n\<close> as it is
  (POSIX).
\<close>

fun universal_newlines :: "string \<Rightarrow> string" where
  "universal_newlines [] = []"
| "universal_newlines [c] = (if c = CR then [LF] else [c])"
| "universal_newlines (c # d # s) =
     (if c = CR \<and> d = LF then LF # universal_newlines s
      else if c = CR then LF # universal_newlines (d # s)
      else c # universal_newlines (d # s))"

definition read_text :: "filesystem \<Rightarrow> path \<Rightarrow> error + string" where
  "read_text fs p =
     (case lookup fs p of
        None \<Rightarrow> Inl FileNotFoundError
      | Some Dir \<Rightarrow> Inl IsADirectoryError
      | Some (File content) \<Rightarrow> Inr (universal_newlines content))"

definition write_text :: "filesystem \<Rightarrow> path \<Rightarrow> string \<Rightarrow> error + filesystem" where
  "write_text fs p content =
     (if p = [] then Inl IsADirectoryError
      else case lookup fs (butlast p) of
        None \<Rightarrow> Inl FileNotFoundError
      | Some (File _) \<Rightarrow> Inl NotADirectoryError
      | Some Dir \<Rightarrow>
          (case lookup fs p of
             Some Dir \<Rightarrow> Inl IsADirectoryError
           | _ \<Rightarrow> Inr (AList.update p (File content) fs)))"

text \<open>\<open>Path.iterdir()\<close>: the names of the entries of a directory.\<close>

definition iterdir :: "filesystem \<Rightarrow> path \<Rightarrow> error + string list" where
  "iterdir fs d =
     (case lookup fs d of
        None \<Rightarrow> Inl FileNotFoundError
      | Some (File _) \<Rightarrow> Inl NotADirectoryError
      | Some Dir \<Rightarrow> Inr (map last (filter (\<lambda>p. p \<noteq> [] \<and> butlast p = d) (map fst fs))))"

section \<open>The index writer\<close>

definition load_existing_versions :: "filesystem \<Rightarrow> path \<Rightarrow> error + version_record list" where
  "load_existing_versions fs package_dir =
     (let index_file = package_dir @ [''index.html'']
      in if lookup fs index_file = None then Inr []
         else bind_result (read_text fs index_file) parse_versions)"

definition update_root_index :: "filesystem \<Rightarrow> path \<Rightarrow> error + filesystem" where
  "update_root_index fs simple_dir =
     bind_result (iterdir fs simple_dir) (\<lambda>items.
       let packages = filter (\<lambda>name. is_dir fs (simple_dir @ [name]) \<and> name \<noteq> ''.git'') items
       in write_text fs (simple_dir @ [''index.html'']) (create_root_index_html packages))"

text \<open>
  The list that \<open>update_index\<close> renders: the loaded records without those of the
  incoming version, the new record appended, sorted by version (\<open>list.sort\<close> is
  stable, as \<open>sort_key\<close> is).
\<close>

definition merge_version :: "version_record list \<Rightarrow> version_record \<Rightarrow> version_record list" where
  "merge_version versions new_version =
     sort_key fst (filter (\<lambda>v. fst v \<noteq> fst new_version) versions @ [new_version])"

definition update_index ::
  "filesystem \<Rightarrow> path \<Rightarrow> string \<Rightarrow> string \<Rightarrow> string \<Rightarrow> string \<Rightarrow> string \<Rightarrow> error + filesystem" where
  "update_index fs index_repo package_name version commit_hash github_user github_repo =
     (let simple_dir = index_repo @ [''simple'']
      in bind_result (join simple_dir package_name) (\<lambda>package_dir.
         bind_result (mkdir_parents fs package_dir) (\<lambda>fs1.
         bind_result (load_existing_versions fs1 package_dir) (\<lambda>versions.
           let new_version = (version, commit_hash, github_user, github_repo);
               versions = merge_version versions new_version;
               package_html = create_package_index_html package_name versions
           in bind_result (write_text fs1 (package_dir @ [''index.html'']) package_html) (\<lambda>fs2.
                update_root_index fs2 simple_dir)))))"

section \<open>An example index\<close>

text \<open>The index after \<open>update(repo, "eprint", "0.0.1", "abc123", "jakeogh", "eprint")\<close> on an empty tree.\<close>

definition eprint_index :: filesystem where
  "eprint_index =
     [([''simple''], Dir),
      ([''simple'', ''eprint''], Dir),
      ([''simple'', ''eprint'', ''index.html''],
         File (create_package_index_html ''eprint''
           [(''0.0.1'', ''abc123'', ''jakeogh'', ''eprint'')])),
      ([''simple'', ''index.html''], File (create_root_index_html [''eprint'']))]"

definition eprint_2_index :: filesystem where
  "eprint_2_index =
     [([''simple''], Dir),
      ([''simple'', ''eprint''], Dir),
      ([''simple'', ''eprint'', ''index.html''],
         File (create_package_index_html ''eprint''
           [(''0.0.2'', ''def456'', ''jakeogh'', ''eprint'')])),
      ([''simple'', ''index.html''], File (create_root_index_html [''eprint'']))]"

section \<open>Names and records that a page gives back\<close>

text \<open>
  The characters that the pattern and the recovery of the version leave to a package
  name and to the fields of a record, and the text of one rendered link from
  \<open>href\<close> to the end of the anchor with the groups the pattern finds in it.
\<close>

definition round_trip_name :: "string \<Rightarrow> bool" where
  "round_trip_name package_name =
     (CHR ''-'' \<notin> set package_name \<and> DQ \<notin> set package_name \<and>
      CHR ''<'' \<notin> set package_name \<and> CR \<notin> set package_name)"

definition round_trip_record :: "version_record \<Rightarrow> bool" where
  "round_trip_record rec =
     (case rec of (version, commit_hash, github_user, github_repo) \<Rightarrow>
        github_user \<noteq> [] \<and> CHR ''/'' \<notin> set github_user \<and> CR \<notin> set github_user \<and>
        github_repo \<noteq> [] \<and> CHR ''/'' \<notin> set github_repo \<and> CR \<notin> set github_repo \<and>
        commit_hash \<noteq> [] \<and> DQ \<notin> set commit_hash \<and> CHR ''#'' \<notin> set commit_hash \<and>
        CR \<notin> set commit_hash \<and>
        DQ \<notin> set version \<and> CHR ''<'' \<notin> set version \<and> CR \<notin> set version \<and>
        \<not> endswith version ''.tar.gz'')"

definition anchor_core :: "string \<Rightarrow> version_record \<Rightarrow> string" where
  "anchor_core package_name rec =
     (case rec of (version, commit_hash, github_user, github_repo) \<Rightarrow>
        ''href='' @ [DQ] @ ''https://github.com/'' @ github_user @ ''/'' @ github_repo @
        ''/archive/'' @ commit_hash @ ''.tar.gz'' @ ''#egg='' @ package_name @ ''-'' @ version @
        [DQ] @ ''>'' @ package_name @ ''-'' @ version @ ''</a>'')"

definition anchor_groups :: "string \<Rightarrow> version_record \<Rightarrow> string \<times> string \<times> string \<times> string" where
  "anchor_groups package_name rec =
     (case rec of (version, commit_hash, github_user, github_repo) \<Rightarrow>
        (github_user, github_repo, commit_hash, package_name @ ''-'' @ version))"

section \<open>The regenerator\<close>

text \<open>
  What an external command does when it is run: the seconds it takes, or \<open>None\<close>
  where it never ends, its exit status and its output.
\<close>

datatype process = Process (duration: "nat option") (returncode: int) (stdout: string)

datatype exn = TimeoutExpired | CalledProcessError

text \<open>A call returns, raises, or never returns.\<close>

datatype 'a outcome = Returns 'a | Raises exn | Hangs

text \<open>
  \<open>subprocess.run(..., timeout=t, check=c)\<close>: without a timeout the call waits for
  the command to end; with one, a command that takes longer raises
  \<open>TimeoutExpired\<close>.
\<close>

definition subprocess_run :: "process \<Rightarrow> nat option \<Rightarrow> bool \<Rightarrow> (int \<times> string) outcome" where
  "subprocess_run p timeout check =
     (case duration p of
        None \<Rightarrow> (case timeout of None \<Rightarrow> Hangs | Some t \<Rightarrow> Raises TimeoutExpired)
      | Some d \<Rightarrow>
          if (case timeout of None \<Rightarrow> False | Some t \<Rightarrow> t < d) then Raises TimeoutExpired
          else if check \<and> returncode p \<noteq> 0 then Raises CalledProcessError
          else Returns (returncode p, stdout p))"

text \<open>\<open>str.strip()\<close> on ASCII text.\<close>

definition whitespace :: "char \<Rightarrow> bool" where
  "whitespace c = (c \<in> set [CHR '' '', CHR 0x09, CHR 0x0A, CHR 0x0B, CHR 0x0C, CHR 0x0D])"

definition strip :: "string \<Rightarrow> string" where
  "strip s = rev (dropWhile whitespace (rev (dropWhile whitespace s)))"

text \<open>
  \<open>get_github_info\<close>: the remote lookup has \<open>timeout=5\<close>, and every exception
  gives \<open>(None, None)\<close>, here \<open>None\<close>. The search of the remote URL for user and
  repository is a parameter.
\<close>

definition get_github_info ::
  "(string \<Rightarrow> (string \<times> string) option) \<Rightarrow> process \<Rightarrow> (string \<times> string) option outcome" where
  "get_github_info match_remote remote_get_url =
     (case subprocess_run remote_get_url (Some 5) False of
        Returns (rc, out) \<Rightarrow>
          if rc \<noteq> 0 then Returns None else Returns (match_remote (strip out))
      | Raises e \<Rightarrow> Returns None
      | Hangs \<Rightarrow> Hangs)"

text \<open>\<open>get_git_commit\<close>: no timeout; only \<open>CalledProcessError\<close> is caught.\<close>

definition get_git_commit :: "process \<Rightarrow> string option outcome" where
  "get_git_commit rev_parse =
     (case subprocess_run rev_parse None True of
        Returns (rc, out) \<Rightarrow> Returns (Some (strip out))
      | Raises CalledProcessError \<Rightarrow> Returns None
      | Raises e \<Rightarrow> Raises e
      | Hangs \<Rightarrow> Hangs)"

text \<open>
  An entry of the scanned directory: its name, what the file tests and the manifest
  give for it, and what the three commands run for it do.
\<close>

record repository =
  name :: string
  is_directory :: bool
  has_marker :: bool
  package_info :: "string option \<times> string option"
  rev_parse :: process
  remote_get_url :: process
  update_script :: process

fun find_repos_with_pip_index ::
  "repository list \<Rightarrow> (repository \<times> string \<times> string \<times> string) list outcome" where
  "find_repos_with_pip_index [] = Returns []"
| "find_repos_with_pip_index (item # items) =
     (if \<not> is_directory item then find_repos_with_pip_index items
      else if prefix ''.'' (name item) \<or> name item = ''pip-index''
        then find_repos_with_pip_index items
      else if \<not> has_marker item then find_repos_with_pip_index items
      else case package_info item of
        (Some package_name, Some version) \<Rightarrow>
          if package_name = [] \<or> version = [] then find_repos_with_pip_index items
          else (case get_git_commit (rev_parse item) of
              Hangs \<Rightarrow> Hangs
            | Raises e \<Rightarrow> Raises e
            | Returns None \<Rightarrow> find_repos_with_pip_index items
            | Returns (Some commit_hash) \<Rightarrow>
                if commit_hash = [] then find_repos_with_pip_index items
                else (case find_repos_with_pip_index items of
                        Returns repos \<Rightarrow>
                          Returns ((item, package_name, version, commit_hash) # repos)
                      | Raises e \<Rightarrow> Raises e
                      | Hangs \<Rightarrow> Hangs))
      | _ \<Rightarrow> find_repos_with_pip_index items)"

text \<open>
  The module defines \<open>regenerate_index\<close> twice. The first definition runs the index
  writer with \<open>timeout=10\<close> and catches \<open>TimeoutExpired\<close>; the second, which is
  the one in force when \<open>main\<close> runs, has no timeout. The result is the list of
  the packages whose writer returned with status 0.
\<close>

fun add_repos_shadowed ::
  "(string \<Rightarrow> (string \<times> string) option) \<Rightarrow>
   (repository \<times> string \<times> string \<times> string) list \<Rightarrow> string list outcome" where
  "add_repos_shadowed match_remote [] = Returns []"
| "add_repos_shadowed match_remote ((repo_path, package_name, version, commit_hash) # repos) =
     (case get_github_info match_remote (remote_get_url repo_path) of
        Hangs \<Rightarrow> Hangs
      | Raises e \<Rightarrow> Raises e
      | Returns info \<Rightarrow>
          (case subprocess_run (update_script repo_path) (Some 10) False of
             Hangs \<Rightarrow> Hangs
           | Raises e \<Rightarrow> add_repos_shadowed match_remote repos
           | Returns (rc, out) \<Rightarrow>
               (case add_repos_shadowed match_remote repos of
                  Returns added \<Rightarrow> Returns (if rc = 0 then package_name # added else added)
                | Raises e \<Rightarrow> Raises e
                | Hangs \<Rightarrow> Hangs)))"

fun add_repos ::
  "(string \<Rightarrow> (string \<times> string) option) \<Rightarrow>
   (repository \<times> string \<times> string \<times> string) list \<Rightarrow> string list outcome" where
  "add_repos match_remote [] = Returns []"
| "add_repos match_remote ((repo_path, package_name, version, commit_hash) # repos) =
     (case get_github_info match_remote (remote_get_url repo_path) of
        Hangs \<Rightarrow> Hangs
      | Raises e \<Rightarrow> Raises e
      | Returns info \<Rightarrow>
          (case subprocess_run (update_script repo_path) None True of
             Hangs \<Rightarrow> Hangs
           | Raises CalledProcessError \<Rightarrow> add_repos match_remote repos
           | Raises e \<Rightarrow> Raises e
           | Returns (rc, out) \<Rightarrow>
               (case add_repos match_remote repos of
                  Returns added \<Rightarrow> Returns (package_name # added)
                | Raises e \<Rightarrow> Raises e
                | Hangs \<Rightarrow> Hangs)))"

definition regenerate_index_shadowed ::
  "(string \<Rightarrow> (string \<times> string) option) \<Rightarrow> repository list \<Rightarrow> string list outcome" where
  "regenerate_index_shadowed match_remote items =
     (case find_repos_with_pip_index items of
        Returns repos \<Rightarrow> add_repos_shadowed match_remote (sort_key (\<lambda>x. fst (snd x)) repos)
      | Raises e \<Rightarrow> Raises e
      | Hangs \<Rightarrow> Hangs)"

definition regenerate_index ::
  "(string \<Rightarrow> (string \<times> string) option) \<Rightarrow> repository list \<Rightarrow> string list outcome" where
  "regenerate_index match_remote items =
     (case find_repos_with_pip_index items of
        Returns repos \<Rightarrow> add_repos match_remote (sort_key (\<lambda>x. fst (snd x)) repos)
      | Raises e \<Rightarrow> Raises e
      | Hangs \<Rightarrow> Hangs)"

definition example_repository :: "process \<Rightarrow> process \<Rightarrow> process \<Rightarrow> repository" where
  "example_repository commit remote update =
     \<lparr>name = ''eprint'', is_directory = True, has_marker = True,
      package_info = (Some ''eprint'', Some ''0.0.1''),
      rev_parse = commit, remote_get_url = remote, update_script = update\<rparr>"

definition ends_after :: "nat \<Rightarrow> string \<Rightarrow> process" where
  "ends_after seconds out = Process (Some seconds) 0 out"

definition never_ends :: process where
  "never_ends = Process None 0 []"

section \<open>Properties of the file tree and of the writer\<close>

subsection \<open>Lookups after the operations on the tree\<close>

lemma bind_result_Inr:
  "bind_result r f = Inr y \<longleftrightarrow> (\<exists>x. r = Inr x \<and> f x = Inr y)"
  by (cases r) (simp_all add: bind_result_def)

lemma lookup_nonempty: "p \<noteq> [] \<Longrightarrow> lookup fs p = map_of fs p"
  by (simp add: lookup_def)

lemma lookup_snoc [simp]: "lookup fs (d @ [n]) = map_of fs (d @ [n])"
  by (simp add: lookup_def)

lemma mkdir_from_lookup:
  "mkdir_from fs parent names = Inr fs1 \<Longrightarrow>
   lookup fs1 q =
     (if lookup fs q = None \<and> (\<exists>i. 0 < i \<and> i \<le> length names \<and> q = parent @ take i names)
      then Some Dir else lookup fs q)"
proof (induction names arbitrary: fs parent)
  case Nil
  then show ?case by simp
next
  case (Cons name names)
  have ex: "(\<exists>i. 0 < i \<and> i \<le> length (name # names) \<and> q = parent @ take i (name # names)) \<longleftrightarrow>
      q = parent @ [name] \<or> (\<exists>i. 0 < i \<and> i \<le> length names \<and> q = (parent @ [name]) @ take i names)"
    (is "?L \<longleftrightarrow> ?R")
  proof
    assume ?L
    then obtain i where i: "0 < i" "i \<le> length (name # names)" "q = parent @ take i (name # names)"
      by blast
    then obtain j where j: "i = Suc j" by (cases i) auto
    show ?R
    proof (cases j)
      case 0
      with i j show ?thesis by simp
    next
      case (Suc m)
      with i j have "0 < j \<and> j \<le> length names \<and> q = (parent @ [name]) @ take j names" by simp
      then show ?thesis by blast
    qed
  next
    assume ?R
    then show ?L
    proof
      assume "q = parent @ [name]"
      then have "0 < Suc 0 \<and> Suc 0 \<le> length (name # names) \<and> q = parent @ take (Suc 0) (name # names)"
        by simp
      then show ?L by blast
    next
      assume "\<exists>i. 0 < i \<and> i \<le> length names \<and> q = (parent @ [name]) @ take i names"
      then obtain i where "0 < i" "i \<le> length names" "q = (parent @ [name]) @ take i names" by blast
      then have "0 < Suc i \<and> Suc i \<le> length (name # names) \<and> q = parent @ take (Suc i) (name # names)"
        by simp
      then show ?L by blast
    qed
  qed
  show ?case
  proof (cases "lookup fs (parent @ [name])")
    case None
    with Cons.prems have step: "mkdir_from (fs @ [(parent @ [name], Dir)]) (parent @ [name]) names = Inr fs1"
      by simp
    have new: "lookup (fs @ [(parent @ [name], Dir)]) q =
        (if lookup fs q = None \<and> q = parent @ [name] then Some Dir else lookup fs q)"
      by (auto simp: lookup_def map_add_def split: option.splits)
    show ?thesis
      unfolding Cons.IH [OF step] new ex by auto
  next
    case (Some n)
    with Cons.prems have n: "n = Dir" by (cases n) auto
    with Some Cons.prems have step: "mkdir_from fs (parent @ [name]) names = Inr fs1"
      by simp
    show ?thesis
      unfolding Cons.IH [OF step] ex using Some by auto
  qed
qed


lemma write_text_Inr:
  "write_text fs p content = Inr fs' \<Longrightarrow>
   p \<noteq> [] \<and> lookup fs p \<noteq> Some Dir \<and> fs' = AList.update p (File content) fs"
  by (auto simp: write_text_def split: if_splits option.splits node.splits)

lemma write_text_lookup:
  "write_text fs p content = Inr fs' \<Longrightarrow>
   lookup fs' q = (if q = p then Some (File content) else lookup fs q)"
  by (auto dest!: write_text_Inr simp: lookup_def update_conv')


lemma iterdir_set:
  assumes "iterdir fs d = Inr items"
  shows "set items = {n. map_of fs (d @ [n]) \<noteq> None}"
proof -
  from assms have items: "items = map last (filter (\<lambda>p. p \<noteq> [] \<and> butlast p = d) (map fst fs))"
    by (auto simp: iterdir_def split: option.splits node.splits)
  have "n \<in> set items \<longleftrightarrow> d @ [n] \<in> fst ` set fs" for n
  proof
    assume "n \<in> set items"
    then obtain p where p: "p \<in> fst ` set fs" "p \<noteq> []" "butlast p = d" "last p = n"
      unfolding items by auto
    then have "p = d @ [n]" using append_butlast_last_id [of p] by simp
    with p show "d @ [n] \<in> fst ` set fs" by simp
  next
    assume "d @ [n] \<in> fst ` set fs"
    then have "last (d @ [n]) \<in> set items"
      unfolding items set_map set_filter by (intro imageI CollectI conjI) simp_all
    then show "n \<in> set items" by simp
  qed
  then show ?thesis by (auto simp: map_of_eq_None_iff)
qed

lemma iterdir_distinct:
  assumes "iterdir fs d = Inr items" and "distinct (map fst fs)"
  shows "distinct items"
proof -
  from assms have items: "items = map last (filter (\<lambda>p. p \<noteq> [] \<and> butlast p = d) (map fst fs))"
    by (auto simp: iterdir_def split: option.splits node.splits)
  have "inj_on last {p. p \<noteq> [] \<and> butlast p = d}"
  proof (rule inj_onI)
    fix p q :: path
    assume "p \<in> {p. p \<noteq> [] \<and> butlast p = d}" "q \<in> {p. p \<noteq> [] \<and> butlast p = d}" "last p = last q"
    then show "p = q"
      using append_butlast_last_id [of p] append_butlast_last_id [of q] by auto
  qed
  then have "inj_on last (set (filter (\<lambda>p. p \<noteq> [] \<and> butlast p = d) (map fst fs)))"
    by (rule inj_on_subset) auto
  with assms(2) show ?thesis
    unfolding items by (simp add: distinct_map)
qed

lemma update_root_index_Inr:
  assumes "update_root_index fs d = Inr fs'"
  obtains packages where
    "write_text fs (d @ [''index.html'']) (create_root_index_html packages) = Inr fs'"
    "set packages = {n. lookup fs (d @ [n]) = Some Dir \<and> n \<noteq> ''.git''}"
    "distinct (map fst fs) \<longrightarrow> distinct packages"
proof -
  from assms obtain items where items: "iterdir fs d = Inr items"
    and w: "write_text fs (d @ [''index.html''])
       (create_root_index_html (filter (\<lambda>name. is_dir fs (d @ [name]) \<and> name \<noteq> ''.git'') items)) = Inr fs'"
    by (auto simp: update_root_index_def bind_result_Inr)
  let ?ps = "filter (\<lambda>name. is_dir fs (d @ [name]) \<and> name \<noteq> ''.git'') items"
  have "set ?ps = {n. lookup fs (d @ [n]) = Some Dir \<and> n \<noteq> ''.git''}"
    using iterdir_set [OF items] by (auto simp: is_dir_def)
  moreover have "distinct (map fst fs) \<longrightarrow> distinct ?ps"
    using iterdir_distinct [OF items] by simp
  ultimately show thesis using w that by blast
qed

lemma update_index_Inr:
  assumes "update_index fs index_repo package_name version commit_hash github_user github_repo = Inr fs'"
  obtains fs1 versions fs2 where
    "plain_name package_name"
    "mkdir_parents fs (index_repo @ [''simple'', package_name]) = Inr fs1"
    "load_existing_versions fs1 (index_repo @ [''simple'', package_name]) = Inr versions"
    "write_text fs1 (index_repo @ [''simple'', package_name, ''index.html''])
       (create_package_index_html package_name
          (merge_version versions (version, commit_hash, github_user, github_repo))) = Inr fs2"
    "update_root_index fs2 (index_repo @ [''simple'']) = Inr fs'"
  using assms
  by (auto simp: update_index_def bind_result_Inr join_def Let_def split: if_splits)

lemma load_existing_versions_cong:
  "lookup fs1 (d @ [''index.html'']) = lookup fs (d @ [''index.html'']) \<Longrightarrow>
   load_existing_versions fs1 d = load_existing_versions fs d"
  by (simp add: load_existing_versions_def read_text_def Let_def)

lemma mkdir_parents_deeper:
  assumes "mkdir_parents fs p = Inr fs1" and "length p < length q"
  shows "lookup fs1 q = lookup fs q"
  using mkdir_from_lookup [OF assms(1) [unfolded mkdir_parents_def], of q] assms(2)
  by auto


text \<open>What a successful call leaves on the package page.\<close>

lemma update_index_page:
  assumes "update_index fs index_repo package_name version commit_hash github_user github_repo = Inr fs'"
  obtains versions where
    "load_existing_versions fs (index_repo @ [''simple'', package_name]) = Inr versions"
    "lookup fs' (index_repo @ [''simple'', package_name, ''index.html'']) =
       Some (File (create_package_index_html package_name
          (merge_version versions (version, commit_hash, github_user, github_repo))))"
proof -
  from assms obtain fs1 versions fs2 where
    m: "mkdir_parents fs (index_repo @ [''simple'', package_name]) = Inr fs1" and
    l: "load_existing_versions fs1 (index_repo @ [''simple'', package_name]) = Inr versions" and
    w: "write_text fs1 (index_repo @ [''simple'', package_name, ''index.html''])
       (create_package_index_html package_name
          (merge_version versions (version, commit_hash, github_user, github_repo))) = Inr fs2" and
    r: "update_root_index fs2 (index_repo @ [''simple'']) = Inr fs'"
    by (rule update_index_Inr)
  have "lookup fs1 ((index_repo @ [''simple'', package_name]) @ [''index.html'']) =
      lookup fs ((index_repo @ [''simple'', package_name]) @ [''index.html''])"
    by (rule mkdir_parents_deeper [OF m]) simp
  then have 1: "load_existing_versions fs (index_repo @ [''simple'', package_name]) = Inr versions"
    using l load_existing_versions_cong by metis
  from r obtain packages where
    "write_text fs2 ((index_repo @ [''simple'']) @ [''index.html'']) (create_root_index_html packages) = Inr fs'"
    by (rule update_root_index_Inr)
  then have "lookup fs' (index_repo @ [''simple'', package_name, ''index.html'']) =
      lookup fs2 (index_repo @ [''simple'', package_name, ''index.html''])"
    by (simp add: write_text_lookup)
  also have "\<dots> = Some (File (create_package_index_html package_name
          (merge_version versions (version, commit_hash, github_user, github_repo))))"
    using w by (simp add: write_text_lookup)
  finally show thesis using 1 that by blast
qed

subsection \<open>The merged list\<close>

lemma merge_version_filter:
  "filter (\<lambda>r. fst r = fst new_version) (merge_version versions new_version) = [new_version]"
proof -
  have "filter (\<lambda>r. fst r = fst new_version) (filter (\<lambda>v. fst v \<noteq> fst new_version) versions) = []"
    by (induction versions) auto
  then show ?thesis
    by (simp add: merge_version_def filter_sort)
qed

lemma merge_version_set:
  "set (merge_version versions new_version) =
     insert new_version {r \<in> set versions. fst r \<noteq> fst new_version}"
  by (auto simp: merge_version_def)

lemma merge_version_distinct:
  assumes "distinct (map fst versions)"
  shows "distinct (map fst (merge_version versions new_version))"
proof -
  let ?kept = "filter (\<lambda>v. fst v \<noteq> fst new_version) versions"
  from assms have "distinct (map fst ?kept)" by (rule distinct_map_filter)
  moreover have "fst new_version \<notin> fst ` set ?kept" by auto
  ultimately have "distinct (map fst (?kept @ [new_version]))" by simp
  then have "distinct (?kept @ [new_version]) \<and> inj_on fst (set (?kept @ [new_version]))"
    by (simp only: distinct_map)
  then have "distinct (sort_key fst (?kept @ [new_version])) \<and>
      inj_on fst (set (sort_key fst (?kept @ [new_version])))"
    by (simp only: distinct_sort set_sort)
  then show ?thesis
    unfolding merge_version_def by (simp only: distinct_map)
qed

lemma merge_version_sorted: "sorted (map fst (merge_version versions new_version))"
  by (simp add: merge_version_def sorted_sort_key)

lemma returns_example_update:
  "\<not> isl (update_index eprint_index [] ''eprint'' ''0.0.2'' ''def456'' ''jakeogh'' ''eprint'')"
  by code_simp

lemma load_example:
  "load_existing_versions eprint_index [''simple'', ''eprint''] =
     Inr [(''0.0.1'', ''abc123'', ''jakeogh'', ''eprint'')]"
  by code_simp

text \<open>
  C3. A call of \<open>update_index\<close> that finds at most one record per version on the
  package page leaves a page rendered from a list that has exactly one record of the
  incoming version, the new one, and again at most one record per version.
\<close>

theorem update_index_one_record_per_version:
  assumes "update_index fs index_repo package_name version commit_hash github_user github_repo = Inr fs'"
    and "load_existing_versions fs (index_repo @ [''simple'', package_name]) = Inr prior"
    and "distinct (map fst prior)"
  shows "\<exists>result.
      lookup fs' (index_repo @ [''simple'', package_name, ''index.html'']) =
        Some (File (create_package_index_html package_name result)) \<and>
      result = merge_version prior (version, commit_hash, github_user, github_repo) \<and>
      filter (\<lambda>r. fst r = version) result = [(version, commit_hash, github_user, github_repo)] \<and>
      distinct (map fst result)"
proof -
  from assms(1) obtain versions where
    "load_existing_versions fs (index_repo @ [''simple'', package_name]) = Inr versions"
    "lookup fs' (index_repo @ [''simple'', package_name, ''index.html'']) =
       Some (File (create_package_index_html package_name
          (merge_version versions (version, commit_hash, github_user, github_repo))))"
    by (rule update_index_page)
  with assms(2) have "lookup fs' (index_repo @ [''simple'', package_name, ''index.html'']) =
       Some (File (create_package_index_html package_name
          (merge_version prior (version, commit_hash, github_user, github_repo))))"
    by simp
  moreover have "filter (\<lambda>r. fst r = version)
      (merge_version prior (version, commit_hash, github_user, github_repo)) =
      [(version, commit_hash, github_user, github_repo)]"
    using merge_version_filter [of "(version, commit_hash, github_user, github_repo)" prior] by simp
  moreover have "distinct (map fst (merge_version prior (version, commit_hash, github_user, github_repo)))"
    using assms(3) by (rule merge_version_distinct)
  ultimately show ?thesis by blast
qed

theorem update_index_one_record_per_version_witness:
  "\<exists>fs'. update_index eprint_index [] ''eprint'' ''0.0.2'' ''def456'' ''jakeogh'' ''eprint'' = Inr fs' \<and>
     distinct (map fst [(''0.0.1'', ''abc123'', ''jakeogh'', ''eprint'')]) \<and>
     (\<exists>result.
        lookup fs' ([] @ [''simple'', ''eprint'', ''index.html'']) =
          Some (File (create_package_index_html ''eprint'' result)) \<and>
        result = merge_version [(''0.0.1'', ''abc123'', ''jakeogh'', ''eprint'')]
                   (''0.0.2'', ''def456'', ''jakeogh'', ''eprint'') \<and>
        filter (\<lambda>r. fst r = ''0.0.2'') result = [(''0.0.2'', ''def456'', ''jakeogh'', ''eprint'')] \<and>
        distinct (map fst result))"
proof -
  obtain fs' where u: "update_index eprint_index [] ''eprint'' ''0.0.2'' ''def456'' ''jakeogh'' ''eprint'' = Inr fs'"
    using returns_example_update
    by (cases "update_index eprint_index [] ''eprint'' ''0.0.2'' ''def456'' ''jakeogh'' ''eprint''") auto
  have l: "load_existing_versions eprint_index ([] @ [''simple'', ''eprint'']) =
      Inr [(''0.0.1'', ''abc123'', ''jakeogh'', ''eprint'')]"
    using load_example by simp
  have d: "distinct (map fst [(''0.0.1'', ''abc123'', ''jakeogh'', ''eprint'')])" by simp
  from update_index_one_record_per_version [OF u l d] u d show ?thesis by blast
qed

lemma returns_Inr: "\<not> isl r \<Longrightarrow> \<exists>x. r = Inr x"
  by (cases r) auto

text \<open>
  C4. The list that a call of \<open>update_index\<close> renders on the package page is
  sorted by version in the order of strings, ascending; in that order \<open>0.0.10\<close>
  comes before \<open>0.0.2\<close>.
\<close>

theorem update_index_sorted_by_version_string:
  assumes "update_index fs index_repo package_name version commit_hash github_user github_repo = Inr fs'"
  shows "(\<exists>prior result.
      load_existing_versions fs (index_repo @ [''simple'', package_name]) = Inr prior \<and>
      result = merge_version prior (version, commit_hash, github_user, github_repo) \<and>
      lookup fs' (index_repo @ [''simple'', package_name, ''index.html'']) =
        Some (File (create_package_index_html package_name result)) \<and>
      sorted (map fst result)) \<and>
    merge_version [(''0.0.2'', c2, u2, r2)] (''0.0.10'', c1, u1, r1) =
      [(''0.0.10'', c1, u1, r1), (''0.0.2'', c2, u2, r2)]"
proof
  from assms obtain versions where
    "load_existing_versions fs (index_repo @ [''simple'', package_name]) = Inr versions"
    "lookup fs' (index_repo @ [''simple'', package_name, ''index.html'']) =
       Some (File (create_package_index_html package_name
          (merge_version versions (version, commit_hash, github_user, github_repo))))"
    by (rule update_index_page)
  then show "\<exists>prior result.
      load_existing_versions fs (index_repo @ [''simple'', package_name]) = Inr prior \<and>
      result = merge_version prior (version, commit_hash, github_user, github_repo) \<and>
      lookup fs' (index_repo @ [''simple'', package_name, ''index.html'']) =
        Some (File (create_package_index_html package_name result)) \<and>
      sorted (map fst result)"
    using merge_version_sorted by blast
next
  have "''0.0.10'' \<le> ''0.0.2''" by simp
  then show "merge_version [(''0.0.2'', c2, u2, r2)] (''0.0.10'', c1, u1, r1) =
      [(''0.0.10'', c1, u1, r1), (''0.0.2'', c2, u2, r2)]"
    by (simp add: merge_version_def)
qed

lemma returns_example_10:
  "\<not> isl (update_index eprint_2_index [] ''eprint'' ''0.0.10'' ''abc123'' ''jakeogh'' ''eprint'')"
  by code_simp

lemma load_example_2:
  "load_existing_versions eprint_2_index [''simple'', ''eprint''] =
     Inr [(''0.0.2'', ''def456'', ''jakeogh'', ''eprint'')]"
  by code_simp

theorem update_index_sorted_by_version_string_witness:
  "\<exists>fs'. update_index eprint_2_index [] ''eprint'' ''0.0.10'' ''abc123'' ''jakeogh'' ''eprint'' = Inr fs' \<and>
     lookup fs' [''simple'', ''eprint'', ''index.html''] =
       Some (File (create_package_index_html ''eprint''
         [(''0.0.10'', ''abc123'', ''jakeogh'', ''eprint''), (''0.0.2'', ''def456'', ''jakeogh'', ''eprint'')]))"
proof -
  obtain fs' where u: "update_index eprint_2_index [] ''eprint'' ''0.0.10'' ''abc123'' ''jakeogh'' ''eprint'' = Inr fs'"
    using returns_Inr [OF returns_example_10] by blast
  from update_index_sorted_by_version_string [OF u, of "''def456''" "''jakeogh''" "''eprint''" "''abc123''" "''jakeogh''" "''eprint''"]
  have "lookup fs' [''simple'', ''eprint'', ''index.html''] =
       Some (File (create_package_index_html ''eprint''
         [(''0.0.10'', ''abc123'', ''jakeogh'', ''eprint''), (''0.0.2'', ''def456'', ''jakeogh'', ''eprint'')]))"
    using load_example_2 by auto
  with u show ?thesis by blast
qed

text \<open>
  C8. Where the package directory has no \<open>index.html\<close>, \<open>load_existing_versions\<close>
  returns the empty list, and a call of \<open>update_index\<close> that returns leaves a page
  with the incoming record alone.
\<close>

theorem load_existing_versions_no_page:
  assumes "lookup fs (index_repo @ [''simple'', package_name, ''index.html'']) = None"
  shows "load_existing_versions fs (index_repo @ [''simple'', package_name]) = Inr [] \<and>
    (\<forall>fs'. update_index fs index_repo package_name version commit_hash github_user github_repo = Inr fs' \<longrightarrow>
       lookup fs' (index_repo @ [''simple'', package_name, ''index.html'']) =
         Some (File (create_package_index_html package_name
           [(version, commit_hash, github_user, github_repo)])))"
proof -
  from assms have l: "load_existing_versions fs (index_repo @ [''simple'', package_name]) = Inr []"
    by (simp add: load_existing_versions_def lookup_def)
  have "lookup fs' (index_repo @ [''simple'', package_name, ''index.html'']) =
         Some (File (create_package_index_html package_name
           [(version, commit_hash, github_user, github_repo)]))"
    if "update_index fs index_repo package_name version commit_hash github_user github_repo = Inr fs'" for fs'
  proof -
    from that obtain versions where
      "load_existing_versions fs (index_repo @ [''simple'', package_name]) = Inr versions"
      "lookup fs' (index_repo @ [''simple'', package_name, ''index.html'']) =
         Some (File (create_package_index_html package_name
            (merge_version versions (version, commit_hash, github_user, github_repo))))"
      by (rule update_index_page)
    with l show ?thesis by (simp add: merge_version_def)
  qed
  with l show ?thesis by blast
qed

lemma returns_first_update:
  "\<not> isl (update_index [] [] ''eprint'' ''0.0.1'' ''abc123'' ''jakeogh'' ''eprint'')"
  by code_simp

theorem load_existing_versions_no_page_witness:
  "lookup [] [''simple'', ''eprint'', ''index.html''] = None \<and>
   load_existing_versions [] [''simple'', ''eprint''] = Inr [] \<and>
   (\<exists>fs'. update_index [] [] ''eprint'' ''0.0.1'' ''abc123'' ''jakeogh'' ''eprint'' = Inr fs' \<and>
      lookup fs' [''simple'', ''eprint'', ''index.html''] =
        Some (File (create_package_index_html ''eprint'' [(''0.0.1'', ''abc123'', ''jakeogh'', ''eprint'')])))"
proof -
  have n: "lookup [] ([] @ [''simple'', ''eprint'', ''index.html'']) = None"
    by (simp add: lookup_def)
  obtain fs' where u: "update_index [] [] ''eprint'' ''0.0.1'' ''abc123'' ''jakeogh'' ''eprint'' = Inr fs'"
    using returns_Inr [OF returns_first_update] by blast
  from load_existing_versions_no_page [OF n, of "''0.0.1''" "''abc123''" "''jakeogh''" "''eprint''"] u n
  show ?thesis by auto
qed







text \<open>
  C2. A page whose link text ends in \<open>.tar.gz\<close> and has no \<open>-\<close> makes
  \<open>load_existing_versions\<close> raise \<open>IndexError\<close>; and where the suffix occurs more
  than once, every occurrence is removed, not the trailing one alone.
\<close>

theorem load_existing_versions_raises_on_tar_gz_text:
  "load_existing_versions
     [([''simple''], Dir), ([''simple'', ''foo''], Dir),
      ([''simple'', ''foo'', ''index.html''],
         File (''<a href='' @ [DQ] @ ''https://github.com/u/r/archive/c.tar.gz'' @ [DQ] @
               ''>foo.tar.gz</a>''))]
     [''simple'', ''foo''] = Inl IndexError \<and>
   link_text_version ''foo.tar.gz'' = Inl IndexError \<and>
   link_text_version ''p-1.tar.gz.tar.gz'' = Inr ''1''"
  by code_simp

section \<open>The round trip of a package page\<close>

subsection \<open>The match at a rendered link\<close>

lemma package_link_core:
  "package_link package_name rec = ''    <a '' @ anchor_core package_name rec @ ''<br>'' @ [LF]"
  by (cases rec) (simp add: package_link_def anchor_core_def tarball_url_def)

lemma star_greedy_run:
  "\<forall>c\<in>set u. cls c \<Longrightarrow> star_greedy cls k (acc @ u) s = Some r \<Longrightarrow>
   star_greedy cls k acc (u @ s) = Some r"
  by (induction u arbitrary: acc) auto

lemma plus_greedy_run:
  assumes "u \<noteq> []" and "\<forall>c\<in>set u. cls c" and "star_greedy cls k u s = Some r"
  shows "plus_greedy cls k (u @ s) = Some r"
proof -
  from assms(1) obtain c u' where u: "u = c # u'" by (cases u) auto
  with assms(2) have u': "\<forall>c\<in>set u'. cls c" and c: "cls c" by auto
  from assms(3) u have "star_greedy cls k ([c] @ u') s = Some r" by simp
  with u' have "star_greedy cls k [c] (u' @ s) = Some r" by (rule star_greedy_run)
  with c u show ?thesis by (simp add: plus_greedy_def)
qed

lemma plus_greedy_until:
  assumes "u \<noteq> []" and "\<forall>c\<in>set u. cls c" and "\<not> cls d" and "k u (d # s) = Some r"
  shows "plus_greedy cls k (u @ d # s) = Some r"
  using assms by (intro plus_greedy_run) simp_all

lemma then_lit_append: "then_lit p k (p @ s) = k s"
  by (simp add: then_lit_def lit_Some [THEN iffD2])

lemma commit_step:
  "K c (CHR ''#'' # s) = Some r \<Longrightarrow>
   star_greedy (\<lambda>x. x \<noteq> DQ \<and> x \<noteq> CHR ''#'') (\<lambda>g. then_lit ''.tar.gz'' (K g)) c
     (''.tar.gz'' @ CHR ''#'' # s) = Some r"
  by (simp add: then_lit_def DQ_def)

lemma anchor_match_core:
  assumes "round_trip_name package_name" and "round_trip_record rec"
  shows "anchor_match (anchor_core package_name rec @ rest) =
    Some (anchor_groups package_name rec, rest)"
proof -
  obtain v c u r where rec: "rec = (v, c, u, r)" by (cases rec) auto
  define t where "t = package_name @ ''-'' @ v"
  from assms rec have u: "u \<noteq> []" "\<forall>x\<in>set u. x \<noteq> CHR ''/''"
    and r: "r \<noteq> []" "\<forall>x\<in>set r. x \<noteq> CHR ''/''"
    and c: "c \<noteq> []" "\<forall>x\<in>set c. x \<noteq> DQ \<and> x \<noteq> CHR ''#''"
    by (auto simp: round_trip_record_def)
  from assms rec have t: "t \<noteq> []" "\<forall>x\<in>set t. x \<noteq> CHR ''<''" "\<forall>x\<in>set t. x \<noteq> DQ"
    by (auto simp: round_trip_record_def round_trip_name_def t_def DQ_def)
  define k4 where "k4 = (\<lambda>(g3 :: string) (g4 :: string).
     then_lit ''</a>'' (\<lambda>rest. Some ((u, r, g3, g4), rest)))"
  define K3 where "K3 = (\<lambda>g3. opt_greedy egg_fragment
     (then_lit ([DQ] @ ''>'') (plus_greedy (\<lambda>c. c \<noteq> CHR ''<'') (k4 g3))))"
  define k3 where "k3 = (\<lambda>(g1 :: string) (g2 :: string) (g3 :: string). then_lit ''.tar.gz''
     (opt_greedy egg_fragment
       (then_lit ([DQ] @ ''>'')
         (plus_greedy (\<lambda>c. c \<noteq> CHR ''<'') (\<lambda>g4.
            then_lit ''</a>'' (\<lambda>rest. Some ((g1, g2, g3, g4), rest)))))))"
  define k2 where "k2 = (\<lambda>g1 g2. then_lit ''/archive/''
     (plus_greedy (\<lambda>c. c \<noteq> DQ \<and> c \<noteq> CHR ''#'') (k3 g1 g2)))"
  define k1 where "k1 = (\<lambda>g1. then_lit ''/'' (plus_greedy (\<lambda>c. c \<noteq> CHR ''/'') (k2 g1)))"
  have ap: "after_prefix = plus_greedy (\<lambda>c. c \<noteq> CHR ''/'') k1"
    by (simp add: after_prefix_def k1_def k2_def k3_def)
  have s4: "plus_greedy (\<lambda>c. c \<noteq> CHR ''<'') (k4 c) (t @ CHR ''<'' # ''/a>'' @ rest) =
      Some ((u, r, c, t), rest)"
    using t(1,2) by (rule plus_greedy_until) (simp_all add: k4_def then_lit_def)
  define K where "K = then_lit ([DQ] @ ''>'') (plus_greedy (\<lambda>x. x \<noteq> CHR ''<'') (k4 c))"
  have sK: "K (DQ # ''>'' @ t @ CHR ''<'' # ''/a>'' @ rest) = Some ((u, r, c, t), rest)"
    using s4 by (simp add: K_def then_lit_def)
  have "plus_greedy (\<lambda>c. c \<noteq> DQ) (\<lambda>_. K) (t @ DQ # ''>'' @ t @ CHR ''<'' # ''/a>'' @ rest) =
      Some ((u, r, c, t), rest)"
    using t(1,3) by (rule plus_greedy_until) (use sK in simp_all)
  then have "egg_fragment K (''#egg='' @ t @ DQ # ''>'' @ t @ CHR ''<'' # ''/a>'' @ rest) =
      Some ((u, r, c, t), rest)"
    by (simp add: egg_fragment_def then_lit_def)
  then have s3: "K3 c (CHR ''#'' # ''egg='' @ t @ DQ # ''>'' @ t @ CHR ''<'' # ''/a>'' @ rest) =
      Some ((u, r, c, t), rest)"
    by (simp add: K3_def K_def opt_greedy_def)
  have k3: "k3 u r = (\<lambda>g. then_lit ''.tar.gz'' (K3 g))"
    by (simp add: k3_def K3_def k4_def)
  have "star_greedy (\<lambda>x. x \<noteq> DQ \<and> x \<noteq> CHR ''#'') (k3 u r) c
     (''.tar.gz'' @ CHR ''#'' # ''egg='' @ t @ DQ # ''>'' @ t @ CHR ''<'' # ''/a>'' @ rest) =
      Some ((u, r, c, t), rest)"
    unfolding k3 by (rule commit_step) (rule s3)
  with c have "plus_greedy (\<lambda>x. x \<noteq> DQ \<and> x \<noteq> CHR ''#'') (k3 u r)
     (c @ ''.tar.gz'' @ CHR ''#'' # ''egg='' @ t @ DQ # ''>'' @ t @ CHR ''<'' # ''/a>'' @ rest) =
      Some ((u, r, c, t), rest)"
    by (rule plus_greedy_run)
  then have "k2 u r (CHR ''/'' # ''archive/'' @
     c @ ''.tar.gz'' @ CHR ''#'' # ''egg='' @ t @ DQ # ''>'' @ t @ CHR ''<'' # ''/a>'' @ rest) =
      Some ((u, r, c, t), rest)"
    by (simp add: k2_def then_lit_def)
  with r have "plus_greedy (\<lambda>c. c \<noteq> CHR ''/'') (k2 u) (r @ CHR ''/'' # ''archive/'' @
     c @ ''.tar.gz'' @ CHR ''#'' # ''egg='' @ t @ DQ # ''>'' @ t @ CHR ''<'' # ''/a>'' @ rest) =
      Some ((u, r, c, t), rest)"
    by (intro plus_greedy_until) simp_all
  then have "k1 u (CHR ''/'' # r @ CHR ''/'' # ''archive/'' @
     c @ ''.tar.gz'' @ CHR ''#'' # ''egg='' @ t @ DQ # ''>'' @ t @ CHR ''<'' # ''/a>'' @ rest) =
      Some ((u, r, c, t), rest)"
    by (simp add: k1_def then_lit_def)
  with u have "plus_greedy (\<lambda>c. c \<noteq> CHR ''/'') k1 (u @ CHR ''/'' # r @ CHR ''/'' # ''archive/'' @
     c @ ''.tar.gz'' @ CHR ''#'' # ''egg='' @ t @ DQ # ''>'' @ t @ CHR ''<'' # ''/a>'' @ rest) =
      Some ((u, r, c, t), rest)"
    by (intro plus_greedy_until) simp_all
  then show ?thesis
    by (simp add: anchor_match_def ap then_lit_def rec anchor_core_def anchor_groups_def t_def)
qed

subsection \<open>The scan of a rendered page\<close>

lemma anchor_match_prefix:
  assumes "anchor_match s = Some x"
  shows "\<exists>t. s = ''href='' @ DQ # t"
proof -
  from assms obtain s1 where "s = (''href='' @ [DQ] @ ''https://github.com/'') @ s1"
    by (auto simp: anchor_match_def then_lit_def lit_Some split: option.splits)
  then show ?thesis by simp
qed

lemma anchor_match_None:
  assumes "DQ \<notin> set b" and "b \<noteq> []" and "last b \<notin> set ''href=''"
  shows "anchor_match (b @ s) = None"
proof (rule ccontr)
  assume "anchor_match (b @ s) \<noteq> None"
  then obtain t where "b @ s = ''href='' @ DQ # t"
    using anchor_match_prefix by blast
  with assms show False
    by (auto simp: append_eq_Cons_conv)
qed

lemma finditer_match: "anchor_match s = Some (g, rest) \<Longrightarrow> finditer s = g # finditer rest"
  by (cases s) (auto dest: anchor_match_prefix)

lemma finditer_skip:
  "DQ \<notin> set h \<Longrightarrow> h = [] \<or> last h \<notin> set ''href='' \<Longrightarrow> finditer (h @ s) = finditer s"
proof (induction h)
  case Nil
  then show ?case by simp
next
  case (Cons c h)
  then have "anchor_match ((c # h) @ s) = None"
    by (intro anchor_match_None) auto
  then have "finditer ((c # h) @ s) = finditer (h @ s)" by simp
  also have "\<dots> = finditer s"
    using Cons.prems by (intro Cons.IH) (auto split: if_splits)
  finally show ?case .
qed

lemma finditer_no_quote: "DQ \<notin> set s \<Longrightarrow> finditer s = []"
proof (induction s)
  case Nil
  then show ?case by simp
next
  case (Cons c s)
  have "anchor_match (c # s) = None"
  proof (rule ccontr)
    assume "anchor_match (c # s) \<noteq> None"
    then obtain t where "c # s = ''href='' @ DQ # t" using anchor_match_prefix by blast
    then have "DQ \<in> set (c # s)" by simp
    with Cons.prems show False by simp
  qed
  with Cons show ?case by simp
qed

lemma finditer_links:
  assumes "round_trip_name package_name" and "\<forall>rec\<in>set records. round_trip_record rec"
    and "DQ \<notin> set q"
  shows "finditer (q @ concat (map (package_link package_name) records) @ html_footer) =
    map (anchor_groups package_name) records"
  using assms(2,3)
proof (induction records arbitrary: q)
  case Nil
  then have "DQ \<notin> set (q @ html_footer)"
    by (simp add: html_footer_def DQ_def LF_def)
  then show ?case by (simp add: finditer_no_quote)
next
  case (Cons rec records)
  let ?tail = "concat (map (package_link package_name) records) @ html_footer"
  have "finditer (q @ concat (map (package_link package_name) (rec # records)) @ html_footer) =
      finditer ((q @ ''    <a '') @ anchor_core package_name rec @ (''<br>'' @ [LF]) @ ?tail)"
    by (simp add: package_link_core)
  also have "\<dots> = finditer (anchor_core package_name rec @ (''<br>'' @ [LF]) @ ?tail)"
    using Cons.prems(2) by (intro finditer_skip) (simp_all add: DQ_def)
  also have "\<dots> = anchor_groups package_name rec # finditer ((''<br>'' @ [LF]) @ ?tail)"
    using assms(1) Cons.prems(1) by (intro finditer_match anchor_match_core) simp_all
  also have "finditer ((''<br>'' @ [LF]) @ ?tail) = map (anchor_groups package_name) records"
    using Cons.prems(1) by (intro Cons.IH) (simp_all add: DQ_def LF_def)
  finally show ?case by simp
qed

subsection \<open>The version of a rendered link text\<close>

lemma endswith_suffix: "endswith s suf \<longleftrightarrow> (\<exists>pre. s = pre @ suf)"
proof
  assume "endswith s suf"
  then have "s = take (length s - length suf) s @ suf"
    unfolding endswith_def by (metis append_take_drop_id)
  then show "\<exists>pre. s = pre @ suf" ..
next
  assume "\<exists>pre. s = pre @ suf"
  then show "endswith s suf" by (auto simp: endswith_def)
qed

lemma endswith_link_text:
  "endswith (package_name @ ''-'' @ version) ''.tar.gz'' \<longleftrightarrow> endswith version ''.tar.gz''"
proof
  assume "endswith (package_name @ ''-'' @ version) ''.tar.gz''"
  then obtain pre where "(package_name @ ''-'') @ version = pre @ ''.tar.gz''"
    unfolding endswith_suffix by auto
  then obtain us where
    "package_name @ ''-'' = pre @ us \<and> us @ version = ''.tar.gz'' \<or>
     (package_name @ ''-'') @ us = pre \<and> version = us @ ''.tar.gz''"
    unfolding append_eq_append_conv2 by blast
  then show "endswith version ''.tar.gz''"
  proof
    assume a: "package_name @ ''-'' = pre @ us \<and> us @ version = ''.tar.gz''"
    show ?thesis
    proof (cases "us = []")
      case True
      with a show ?thesis by (simp add: endswith_def)
    next
      case False
      with a have "last us = CHR ''-''"
        by (metis last_appendR last_snoc append_assoc append_Cons append_Nil)
      moreover from a have "set us \<subseteq> set ''.tar.gz''"
        by (metis set_append Un_upper1)
      ultimately show ?thesis using False last_in_set [of us] by auto
    qed
  next
    assume "(package_name @ ''-'') @ us = pre \<and> version = us @ ''.tar.gz''"
    then show ?thesis unfolding endswith_suffix by blast
  qed
next
  assume "endswith version ''.tar.gz''"
  then show "endswith (package_name @ ''-'' @ version) ''.tar.gz''"
    unfolding endswith_suffix by (metis append_assoc)
qed

lemma link_text_version_rendered:
  assumes "CHR ''-'' \<notin> set package_name" and "\<not> endswith version ''.tar.gz''"
  shows "link_text_version (package_name @ ''-'' @ version) = Inr version"
proof -
  have "takeWhile (\<lambda>c. c \<noteq> CHR ''-'') (package_name @ CHR ''-'' # version) = package_name"
    using assms(1) by (induction package_name) auto
  moreover have "dropWhile (\<lambda>c. c \<noteq> CHR ''-'') (package_name @ CHR ''-'' # version) = CHR ''-'' # version"
    using assms(1) by (induction package_name) auto
  ultimately show ?thesis
    using assms(2) endswith_link_text [of package_name version]
    by (simp add: link_text_version_def split_once_def index_def)
qed

lemma collect_versions_rendered:
  assumes "round_trip_name package_name" and "\<forall>rec\<in>set records. round_trip_record rec"
  shows "collect_versions (map (anchor_groups package_name) records) = Inr records"
  using assms(2)
proof (induction records)
  case Nil
  then show ?case by simp
next
  case (Cons rec records)
  obtain v c u r where rec: "rec = (v, c, u, r)" by (cases rec) auto
  with Cons.prems assms(1) have "link_text_version (package_name @ ''-'' @ v) = Inr v"
    by (intro link_text_version_rendered) (auto simp: round_trip_name_def round_trip_record_def)
  with Cons rec show ?case
    by (simp add: anchor_groups_def bind_result_def)
qed

lemma universal_newlines_id: "CR \<notin> set s \<Longrightarrow> universal_newlines s = s"
  by (induction s rule: universal_newlines.induct) auto

lemma parse_versions_rendered:
  assumes "round_trip_name package_name" and "\<forall>rec\<in>set records. round_trip_record rec"
  shows "parse_versions (create_package_index_html package_name records) = Inr records"
proof -
  from assms(1) have "DQ \<notin> set (package_header package_name)"
    by (simp add: package_header_def round_trip_name_def DQ_def LF_def)
  with assms have "finditer (package_header package_name @
      concat (map (package_link package_name) records) @ html_footer) =
      map (anchor_groups package_name) records"
    by (intro finditer_links)
  with assms show ?thesis
    by (simp add: parse_versions_def create_package_index_html_def collect_versions_rendered)
qed

lemma rendered_no_CR:
  assumes "round_trip_name package_name" and "\<forall>rec\<in>set records. round_trip_record rec"
  shows "CR \<notin> set (create_package_index_html package_name records)"
proof -
  have "CR \<notin> set (package_link package_name rec)" if "rec \<in> set records" for rec
  proof -
    obtain v c u r where "rec = (v, c, u, r)" by (cases rec) auto
    with that assms show ?thesis
      by (auto simp: package_link_def tarball_url_def round_trip_name_def round_trip_record_def
          CR_def DQ_def LF_def)
  qed
  with assms(1) show ?thesis
    by (auto simp: create_package_index_html_def package_header_def html_footer_def
        round_trip_name_def CR_def LF_def)
qed

lemma load_rendered:
  assumes "lookup fs (package_dir @ [''index.html'']) =
      Some (File (create_package_index_html package_name records))"
    and "round_trip_name package_name" and "\<forall>rec\<in>set records. round_trip_record rec"
  shows "load_existing_versions fs package_dir = Inr records"
  using assms rendered_no_CR [OF assms(2,3)] parse_versions_rendered [OF assms(2,3)]
  by (simp add: load_existing_versions_def read_text_def bind_result_def universal_newlines_id)

subsection \<open>A second call with the same record\<close>

lemma stable_fst:
  "filter (\<lambda>x. fst k = fst x) (sort_key fst xs) = filter (\<lambda>x. fst k = fst x) xs"
  for k :: version_record and xs :: "version_record list"
proof -
  have e: "(\<lambda>x :: version_record. fst k = fst x) = (\<lambda>y. fst y = fst k)" by auto
  show ?thesis unfolding e by (rule sort_key_stable)
qed

lemma merge_version_idem:
  "merge_version (merge_version versions new_version) new_version =
     merge_version versions new_version"
proof -
  define A where "A = filter (\<lambda>v. fst v \<noteq> fst new_version) versions"
  define L where "L = sort_key fst (A @ [new_version])"
  have "filter (\<lambda>v. fst v \<noteq> fst new_version) A = A"
    by (simp add: A_def)
  then have f: "filter (\<lambda>v. fst v \<noteq> fst new_version) L = sort_key fst A"
    by (simp add: L_def filter_sort)
  have "sort_key fst (sort_key fst A @ [new_version]) = L"
  proof (rule properties_for_sort_key)
    show "mset L = mset (sort_key fst A @ [new_version])" by (simp add: L_def)
    show "sorted (map fst L)" unfolding L_def by (rule sorted_sort_key)
    fix k :: version_record
    have "filter (\<lambda>x. fst k = fst x) L = filter (\<lambda>x. fst k = fst x) (A @ [new_version])"
      unfolding L_def by (rule stable_fst)
    also have "\<dots> = filter (\<lambda>x. fst k = fst x) A @ filter (\<lambda>x. fst k = fst x) [new_version]"
      by (rule filter_append)
    also have "filter (\<lambda>x. fst k = fst x) A = filter (\<lambda>x. fst k = fst x) (sort_key fst A)"
      by (rule stable_fst [symmetric])
    finally show "filter (\<lambda>x. fst k = fst x) L =
        filter (\<lambda>x. fst k = fst x) (sort_key fst A @ [new_version])"
      by (simp only: filter_append)
  qed
  with f show ?thesis by (simp only: merge_version_def A_def [symmetric] L_def [symmetric])
qed

lemma merge_version_round_trip:
  assumes "round_trip_record new_version" and "\<forall>rec\<in>set versions. round_trip_record rec"
  shows "\<forall>rec\<in>set (merge_version versions new_version). round_trip_record rec"
  using assms by (auto simp: merge_version_set)

text \<open>
  What a successful call leaves to be loaded, where the page read and the incoming
  record are of the kind that a page gives back.
\<close>

lemma update_index_loaded:
  assumes "update_index fs index_repo package_name version commit_hash github_user github_repo = Inr fs'"
    and "load_existing_versions fs (index_repo @ [''simple'', package_name]) = Inr prior"
    and "round_trip_name package_name"
    and "round_trip_record (version, commit_hash, github_user, github_repo)"
    and "\<forall>rec\<in>set prior. round_trip_record rec"
  shows "lookup fs' (index_repo @ [''simple'', package_name, ''index.html'']) =
      Some (File (create_package_index_html package_name
        (merge_version prior (version, commit_hash, github_user, github_repo))))"
    and "load_existing_versions fs' (index_repo @ [''simple'', package_name]) =
      Inr (merge_version prior (version, commit_hash, github_user, github_repo))"
proof -
  from assms(1) obtain versions where
    "load_existing_versions fs (index_repo @ [''simple'', package_name]) = Inr versions"
    "lookup fs' (index_repo @ [''simple'', package_name, ''index.html'']) =
       Some (File (create_package_index_html package_name
          (merge_version versions (version, commit_hash, github_user, github_repo))))"
    by (rule update_index_page)
  with assms(2) show page: "lookup fs' (index_repo @ [''simple'', package_name, ''index.html'']) =
      Some (File (create_package_index_html package_name
        (merge_version prior (version, commit_hash, github_user, github_repo))))"
    by simp
  have "\<forall>rec\<in>set (merge_version prior (version, commit_hash, github_user, github_repo)).
      round_trip_record rec"
    using assms(4,5) by (rule merge_version_round_trip)
  with page assms(3) show "load_existing_versions fs' (index_repo @ [''simple'', package_name]) =
      Inr (merge_version prior (version, commit_hash, github_user, github_repo))"
    by (intro load_rendered) simp_all
qed

text \<open>
  C1 (amended). For a package name without \<open>-\<close>, \<open>"\<close>, \<open><\<close> and carriage return,
  and records whose user and repository are non-empty and have no \<open>/\<close>, whose commit
  is non-empty and has no \<open>"\<close> and no \<open>#\<close>, whose version has no \<open>"\<close> and no
  \<open><\<close> and does not end in \<open>.tar.gz\<close>, none with a carriage return: the page
  rendered by \<open>create_package_index_html\<close> is parsed back by
  \<open>load_existing_versions\<close> to the same records, in the same order.
\<close>

theorem package_page_round_trip:
  assumes "lookup fs (package_dir @ [''index.html'']) =
      Some (File (create_package_index_html package_name records))"
    and "round_trip_name package_name"
    and "\<forall>rec\<in>set records. round_trip_record rec"
  shows "\<exists>loaded. load_existing_versions fs package_dir = Inr loaded \<and>
    loaded = records \<and> set loaded = set records"
  using load_rendered [OF assms] by simp

lemma round_trip_example:
  "round_trip_name ''eprint''"
  "round_trip_record (''0.0.1'', ''abc123'', ''jakeogh'', ''eprint'')"
  "round_trip_record (''0.0.2'', ''def456'', ''jakeogh'', ''eprint'')"
  by code_simp+

theorem package_page_round_trip_witness:
  "lookup eprint_index ([''simple'', ''eprint''] @ [''index.html'']) =
      Some (File (create_package_index_html ''eprint''
        [(''0.0.1'', ''abc123'', ''jakeogh'', ''eprint'')])) \<and>
   round_trip_name ''eprint'' \<and>
   round_trip_record (''0.0.1'', ''abc123'', ''jakeogh'', ''eprint'') \<and>
   load_existing_versions eprint_index [''simple'', ''eprint''] =
     Inr [(''0.0.1'', ''abc123'', ''jakeogh'', ''eprint'')]"
proof -
  have l: "lookup eprint_index ([''simple'', ''eprint''] @ [''index.html'']) =
      Some (File (create_package_index_html ''eprint''
        [(''0.0.1'', ''abc123'', ''jakeogh'', ''eprint'')]))"
    by (simp add: eprint_index_def lookup_def)
  have r: "\<forall>rec\<in>set [(''0.0.1'', ''abc123'', ''jakeogh'', ''eprint'')]. round_trip_record rec"
    using round_trip_example(2) by simp
  from package_page_round_trip [OF l round_trip_example(1) r] l round_trip_example
  show ?thesis by simp
qed

theorem package_page_round_trip_counterexample:
  "load_existing_versions
     [([''simple'', ''a-b'', ''index.html''],
        File (create_package_index_html ''a-b'' [(''1'', ''c'', ''u'', ''r'')]))]
     [''simple'', ''a-b''] = Inr [(''b-1'', ''c'', ''u'', ''r'')] \<and>
   load_existing_versions
     [([''simple'', ''p'', ''index.html''],
        File (create_package_index_html ''p'' [(''1.tar.gz'', ''c'', ''u'', ''r'')]))]
     [''simple'', ''p''] = Inr [(''1'', ''c'', ''u'', ''r'')]"
  by code_simp





text \<open>
  C6 (amended). For a package name and records of the kind that a page gives back:
  a second call of \<open>update_index\<close> with the same arguments leaves the package page
  as the first call left it, and so the records loaded from it.
\<close>

theorem update_index_twice:
  assumes "update_index fs index_repo package_name version commit_hash github_user github_repo = Inr fs1"
    and "update_index fs1 index_repo package_name version commit_hash github_user github_repo = Inr fs2"
    and "load_existing_versions fs (index_repo @ [''simple'', package_name]) = Inr prior"
    and "round_trip_name package_name"
    and "round_trip_record (version, commit_hash, github_user, github_repo)"
    and "\<forall>rec\<in>set prior. round_trip_record rec"
  shows "lookup fs2 (index_repo @ [''simple'', package_name, ''index.html'']) =
      lookup fs1 (index_repo @ [''simple'', package_name, ''index.html'']) \<and>
    load_existing_versions fs2 (index_repo @ [''simple'', package_name]) =
      load_existing_versions fs1 (index_repo @ [''simple'', package_name]) \<and>
    load_existing_versions fs1 (index_repo @ [''simple'', package_name]) =
      Inr (merge_version prior (version, commit_hash, github_user, github_repo))"
proof -
  let ?new = "(version, commit_hash, github_user, github_repo)"
  let ?first = "merge_version prior ?new"
  have p1: "lookup fs1 (index_repo @ [''simple'', package_name, ''index.html'']) =
      Some (File (create_package_index_html package_name ?first))"
    and l1: "load_existing_versions fs1 (index_repo @ [''simple'', package_name]) = Inr ?first"
    using assms(1,3,4,5,6) by (rule update_index_loaded)+
  have ok: "\<forall>rec\<in>set ?first. round_trip_record rec"
    using assms(5,6) by (rule merge_version_round_trip)
  have p2: "lookup fs2 (index_repo @ [''simple'', package_name, ''index.html'']) =
      Some (File (create_package_index_html package_name (merge_version ?first ?new)))"
    and l2: "load_existing_versions fs2 (index_repo @ [''simple'', package_name]) =
      Inr (merge_version ?first ?new)"
    using assms(2) l1 assms(4,5) ok by (rule update_index_loaded)+
  from p1 p2 l1 l2 show ?thesis by (simp only: merge_version_idem simp_thms)
qed

lemma returns_first_then_second:
  "\<not> isl (update_index [] [] ''eprint'' ''0.0.1'' ''abc123'' ''jakeogh'' ''eprint'')"
  "update_index [] [] ''eprint'' ''0.0.1'' ''abc123'' ''jakeogh'' ''eprint'' = Inr fs1 \<Longrightarrow>
   \<not> isl (update_index fs1 [] ''eprint'' ''0.0.1'' ''abc123'' ''jakeogh'' ''eprint'')"
proof -
  have a: "update_index [] [] ''eprint'' ''0.0.1'' ''abc123'' ''jakeogh'' ''eprint'' =
      Inr [([''simple''], Dir), ([''simple'', ''eprint''], Dir),
        ([''simple'', ''eprint'', ''index.html''],
           File (create_package_index_html ''eprint'' [(''0.0.1'', ''abc123'', ''jakeogh'', ''eprint'')])),
        ([''simple'', ''index.html''], File (create_root_index_html [''eprint'']))]"
    by code_simp
  then show "\<not> isl (update_index [] [] ''eprint'' ''0.0.1'' ''abc123'' ''jakeogh'' ''eprint'')"
    by simp
  have b: "\<not> isl (update_index
      [([''simple''], Dir), ([''simple'', ''eprint''], Dir),
        ([''simple'', ''eprint'', ''index.html''],
           File (create_package_index_html ''eprint'' [(''0.0.1'', ''abc123'', ''jakeogh'', ''eprint'')])),
        ([''simple'', ''index.html''], File (create_root_index_html [''eprint'']))]
      [] ''eprint'' ''0.0.1'' ''abc123'' ''jakeogh'' ''eprint'')"
    by code_simp
  show "\<not> isl (update_index fs1 [] ''eprint'' ''0.0.1'' ''abc123'' ''jakeogh'' ''eprint'')"
    if "update_index [] [] ''eprint'' ''0.0.1'' ''abc123'' ''jakeogh'' ''eprint'' = Inr fs1"
    using that a b by simp
qed

theorem update_index_twice_witness:
  "\<exists>fs1 fs2.
     update_index [] [] ''eprint'' ''0.0.1'' ''abc123'' ''jakeogh'' ''eprint'' = Inr fs1 \<and>
     update_index fs1 [] ''eprint'' ''0.0.1'' ''abc123'' ''jakeogh'' ''eprint'' = Inr fs2 \<and>
     load_existing_versions [] [''simple'', ''eprint''] = Inr [] \<and>
     round_trip_name ''eprint'' \<and>
     round_trip_record (''0.0.1'', ''abc123'', ''jakeogh'', ''eprint'') \<and>
     lookup fs2 [''simple'', ''eprint'', ''index.html''] =
       lookup fs1 [''simple'', ''eprint'', ''index.html''] \<and>
     load_existing_versions fs2 [''simple'', ''eprint''] =
       Inr [(''0.0.1'', ''abc123'', ''jakeogh'', ''eprint'')]"
proof -
  obtain fs1 where u1: "update_index [] [] ''eprint'' ''0.0.1'' ''abc123'' ''jakeogh'' ''eprint'' = Inr fs1"
    using returns_Inr [OF returns_first_then_second(1)] by blast
  obtain fs2 where u2: "update_index fs1 [] ''eprint'' ''0.0.1'' ''abc123'' ''jakeogh'' ''eprint'' = Inr fs2"
    using returns_Inr [OF returns_first_then_second(2) [OF u1]] by blast
  have l: "load_existing_versions [] ([] @ [''simple'', ''eprint'']) = Inr []"
    by (simp add: load_existing_versions_def lookup_def)
  have e: "\<forall>rec\<in>set ([] :: version_record list). round_trip_record rec" by simp
  have m: "merge_version [] (''0.0.1'', ''abc123'', ''jakeogh'', ''eprint'') =
      [(''0.0.1'', ''abc123'', ''jakeogh'', ''eprint'')]"
    by (simp add: merge_version_def)
  from update_index_twice [OF u1 u2 l round_trip_example(1,2) e] u1 u2 l m round_trip_example(1,2)
  show ?thesis by (intro exI [of _ fs1] exI [of _ fs2]) simp
qed

theorem update_index_twice_counterexample:
  "bind_result (update_index [] [] ''my-package'' ''1.0'' ''abc123'' ''jakeogh'' ''my-package'') (\<lambda>fs1.
   bind_result (update_index fs1 [] ''my-package'' ''1.0'' ''abc123'' ''jakeogh'' ''my-package'') (\<lambda>fs2.
     Inr (load_existing_versions fs1 [''simple'', ''my-package''],
          load_existing_versions fs2 [''simple'', ''my-package''],
          lookup fs2 [''simple'', ''my-package'', ''index.html'']))) =
   Inr (Inr [(''package-1.0'', ''abc123'', ''jakeogh'', ''my-package'')],
        Inr [(''package-1.0'', ''abc123'', ''jakeogh'', ''my-package''),
             (''package-package-1.0'', ''abc123'', ''jakeogh'', ''my-package'')],
        Some (File (create_package_index_html ''my-package''
          [(''1.0'', ''abc123'', ''jakeogh'', ''my-package''),
           (''package-1.0'', ''abc123'', ''jakeogh'', ''my-package'')])))"
  by code_simp

section \<open>The regenerator and its external commands\<close>

text \<open>
  C9. A commit lookup that never ends makes \<open>get_git_commit\<close>, and with it the scan,
  never return; so does an index writer that never ends in \<open>regenerate_index\<close>, as
  it is defined last. The remote lookup is bounded, and so is the writer in the
  definition of \<open>regenerate_index\<close> that the last one replaces.
\<close>

theorem commit_lookup_and_writer_not_bounded:
  "get_git_commit never_ends = Hangs \<and>
   find_repos_with_pip_index
     [example_repository never_ends (ends_after 0 []) (ends_after 0 [])] = Hangs \<and>
   regenerate_index match_remote
     [example_repository (ends_after 0 ''abc123'') (ends_after 0 []) never_ends] = Hangs \<and>
   get_github_info match_remote never_ends = Returns None \<and>
   regenerate_index_shadowed match_remote
     [example_repository (ends_after 0 ''abc123'') never_ends never_ends] = Returns []"
  by (simp add: get_git_commit_def get_github_info_def subprocess_run_def never_ends_def
      ends_after_def example_repository_def regenerate_index_def regenerate_index_shadowed_def
      strip_def whitespace_def)

end
